theory Spec2Isabelle
  imports Main "HOL-Library.Sublist"
begin

section \<open>Errors\<close>

text \<open>
  Every \<^verbatim>\<open>throw\<close> of the provider is a value of this type. An operation that can
  throw after it has touched shared state returns the state next to the error, so
  that what happened before the throw is kept.
\<close>

datatype error =
    ConfigurationError string
  | InvalidListenerError
  | UnknownModalError
  | StoreNotInitialised

section \<open>The event listener registry\<close>

text \<open>
  \<^verbatim>\<open>modalEventListeners\<close> is a JavaScript \<^verbatim>\<open>Set\<close> of objects
  \<^verbatim>\<open>{ event, handler }\<close>. A \<^verbatim>\<open>Set\<close> of objects compares its members by reference and
  iterates in insertion order, so an entry carries the identity \<open>ident\<close> of its object
  and the set is the list of its members in insertion order. \<open>next_ident\<close> is the
  allocator: the identity the next object literal receives.
\<close>

datatype js_value = JSUndefined | JSNull | JSFunction nat

record listener_entry =
  ident :: nat
  event :: string
  handler :: js_value

record registry =
  entries :: "listener_entry list"
  next_ident :: nat

definition empty_registry :: registry where
  "empty_registry = \<lparr>entries = [], next_ident = 0\<rparr>"

text \<open>\<^verbatim>\<open>Set.prototype.add\<close>: appends the object unless it is a member already.\<close>

definition set_add :: "listener_entry \<Rightarrow> registry \<Rightarrow> registry" where
  "set_add item reg =
     (if ident item \<in> ident ` set (entries reg) then reg
      else reg\<lparr>entries := entries reg @ [item]\<rparr>)"

text \<open>\<^verbatim>\<open>Set.prototype.delete\<close>: removes the object, and answers whether it was a member.\<close>

definition set_delete :: "listener_entry \<Rightarrow> registry \<Rightarrow> bool \<times> registry" where
  "set_delete item reg =
     (ident item \<in> ident ` set (entries reg),
      reg\<lparr>entries := filter (\<lambda>l. ident l \<noteq> ident item) (entries reg)\<rparr>)"

text \<open>
  \<^verbatim>\<open>String.prototype.includes\<close>: the search string occurs at some index \<open>k\<close> with
  \<open>k + length searchString \<le> length s\<close>.
\<close>

definition string_includes :: "string \<Rightarrow> string \<Rightarrow> bool" where
  "string_includes s searchString =
     (length searchString \<le> length s \<and>
      list_ex (\<lambda>k. take (length searchString) (drop k s) = searchString)
        [0 ..< Suc (length s - length searchString)])"

text \<open>A handler is callable when it is a function.\<close>

definition callable :: "js_value \<Rightarrow> bool" where
  "callable v = (case v of JSFunction _ \<Rightarrow> True | _ \<Rightarrow> False)"

text \<open>
  Modelled from the spec: \<^verbatim>\<open>validateListener\<close> is imported from \<^verbatim>\<open>../utils\<close>, which is
  not among the sources. The spec has it check that the event name is non-empty and
  that the handler is callable, and fail with \<open>InvalidListenerError\<close> otherwise.
\<close>

definition validateListener :: "string \<Rightarrow> string \<Rightarrow> js_value \<Rightarrow> error + unit" where
  "validateListener kind eventName handler' =
     (if eventName = [] \<or> \<not> callable handler' then Inl InvalidListenerError else Inr ())"

text \<open>
  \<^verbatim>\<open>registerListener\<close> (lines 79-94). The disposer it returns closes over
  \<^verbatim>\<open>newListener\<close>; it is returned here as that entry, and \<open>remove\<close> is the call of the
  disposer's \<^verbatim>\<open>remove()\<close>.
\<close>

definition registerListener ::
    "string \<Rightarrow> string \<Rightarrow> js_value \<Rightarrow> registry \<Rightarrow> (error + listener_entry) \<times> registry" where
  "registerListener hash' eventName handler' reg =
     (case validateListener ''add'' eventName handler' of
        Inl err \<Rightarrow> (Inl err, reg)
      | Inr _ \<Rightarrow>
          (let newListener =
                 \<lparr>ident = next_ident reg, event = hash' @ ''_'' @ eventName, handler = handler'\<rparr>
           in (Inr newListener,
               set_add newListener (reg\<lparr>next_ident := Suc (next_ident reg)\<rparr>))))"

definition remove :: "listener_entry \<Rightarrow> registry \<Rightarrow> bool \<times> registry" where
  "remove newListener reg = set_delete newListener reg"

text \<open>
  \<^verbatim>\<open>clearListeners\<close> (lines 96-103). \<^verbatim>\<open>forEach\<close> visits the members in insertion order;
  the callback deletes at most the member it is visiting, so every member of the set
  at the time of the call is visited once.
\<close>

definition clearListeners :: "string \<Rightarrow> registry \<Rightarrow> registry" where
  "clearListeners hash' reg =
     fold (\<lambda>item r. if string_includes (event item) hash' then snd (set_delete item r) else r)
       (entries reg) reg"

text \<open>
  Modelled from the spec: emission is done by collaborators that are not among the
  sources. The spec has it walk the registry for the entries whose key equals the
  hash, the separator and the event name, and invoke each handler; \<open>emit_matches\<close> is
  the list of the entries it invokes.
\<close>

definition emit_matches :: "string \<Rightarrow> string \<Rightarrow> registry \<Rightarrow> listener_entry list" where
  "emit_matches hash' eventName reg =
     filter (\<lambda>l. event l = hash' @ ''_'' @ eventName) (entries reg)"

text \<open>
  The registries the program can reach: identities are handed out once, so the members
  have distinct identities, all below the allocator.
\<close>

definition wf_registry :: "registry \<Rightarrow> bool" where
  "wf_registry reg =
     (list_all (\<lambda>l. ident l < next_ident reg) (entries reg) \<and>
      distinct (map ident (entries reg)))"

section \<open>The modal state store and the hardware-back handler\<close>

text \<open>
  Modelled from the spec: the types of \<^verbatim>\<open>../types\<close> are not among the sources. A modal
  instance has its hash, its name and the parameters given when it was opened. The
  \<^verbatim>\<open>stack\<close> object carries the Stack Definition (the modal names) and the ordered
  sequence of the open instances, the last one topmost. The state of the store is what
  \<^verbatim>\<open>getState()\<close> returns and what the factory given to \<^verbatim>\<open>init\<close> builds:
  \<^verbatim>\<open>{ currentModal, stack }\<close>.
\<close>

record 'v modal_instance =
  hash :: string
  name :: string
  params :: "(string \<times> 'v) list"

record 'v modal_stack =
  names :: "string list"
  openedItems :: "'v modal_instance list"

record 'v modal_state =
  currentModal :: "'v modal_instance option"
  stack :: "'v modal_stack"

datatype back_handler = HandleBackPress | AppHandler nat

datatype state_listener = ProviderListener

datatype store_call =
    CallInit | CallSubscribe | CallUnsubscribe | CallGetState | CallOpenModal | CallGetParam
  | CallCloseModal | CallCloseModals | CallCloseAllModals | CallHandleBackPress

text \<open>
  What the provider shares with its collaborators: the state of the \<^verbatim>\<open>ModalState\<close>
  singleton (\<open>None\<close> until \<^verbatim>\<open>init\<close>), its subscribers, the handlers subscribed to
  \<^verbatim>\<open>hardwareBackPress\<close> at \<^verbatim>\<open>BackHandler\<close>, the provider's ref
  \<^verbatim>\<open>modalStateSubscription\<close>, and the trace of the calls made to the store.
\<close>

record 'v system =
  modalState :: "'v modal_state option"
  subscribers :: "state_listener list"
  backHandlers :: "back_handler list"
  modalStateSubscription :: "state_listener option"
  storeCalls :: "store_call list"

definition fresh_system :: "'v system" where
  "fresh_system =
     \<lparr>modalState = None, subscribers = [], backHandlers = [],
      modalStateSubscription = None, storeCalls = []\<rparr>"

definition called :: "store_call \<Rightarrow> 'v system \<Rightarrow> 'v system" where
  "called c s = s\<lparr>storeCalls := storeCalls s @ [c]\<rparr>"

text \<open>
  \<^verbatim>\<open>BackHandler\<close> is React Native's. It keeps a handler once: adding a handler that is
  subscribed already changes nothing, and removing it leaves no subscription of it.
\<close>

definition BackHandler_addEventListener :: "back_handler \<Rightarrow> back_handler list \<Rightarrow> back_handler list" where
  "BackHandler_addEventListener h hs = (if h \<in> set hs then hs else hs @ [h])"

definition BackHandler_removeEventListener :: "back_handler \<Rightarrow> back_handler list \<Rightarrow> back_handler list" where
  "BackHandler_removeEventListener h hs = filter (\<lambda>x. x \<noteq> h) hs"

text \<open>
  \<^verbatim>\<open>ModalState\<close> is imported from \<^verbatim>\<open>./ModalState\<close>, which is not among the sources. Its
  operations are modelled from section 4.1 of the spec, for what they do to the stack.
  Closing actions and the notification of the subscribers are left out: they touch
  neither the stack nor \<^verbatim>\<open>BackHandler\<close>. Every operation but \<^verbatim>\<open>init\<close> and \<^verbatim>\<open>subscribe\<close> fails
  on a store that is not initialised, which the spec calls a fatal precondition
  violation.
\<close>

text \<open>
  Modelled from the spec: the stack of \<^verbatim>\<open>ModalState\<close> after a mutation. The spec has
  \<^verbatim>\<open>currentModal\<close> be the last element of the stack, or none.
\<close>

definition with_opened :: "'v modal_instance list \<Rightarrow> 'v modal_state \<Rightarrow> 'v modal_state" where
  "with_opened items st =
     st\<lparr>currentModal := (if items = [] then None else Some (last items)),
        stack := (stack st)\<lparr>openedItems := items\<rparr>\<rparr>"

text \<open>
  Modelled from the spec: \<^verbatim>\<open>ModalState.init\<close> sets the store to the result of the factory.
\<close>

definition ModalState_init :: "'v modal_state \<Rightarrow> 'v system \<Rightarrow> 'v system" where
  "ModalState_init initialState s = (called CallInit s)\<lparr>modalState := Some initialState\<rparr>"

text \<open>
  Modelled from the spec: \<^verbatim>\<open>ModalState.subscribe\<close> registers an observer and returns the
  subscription, whose \<^verbatim>\<open>unsubscribe()\<close> removes it.
\<close>

definition ModalState_subscribe :: "state_listener \<Rightarrow> 'v system \<Rightarrow> state_listener \<times> 'v system" where
  "ModalState_subscribe l s = (l, (called CallSubscribe s)\<lparr>subscribers := subscribers s @ [l]\<rparr>)"

definition ModalState_unsubscribe :: "state_listener \<Rightarrow> 'v system \<Rightarrow> 'v system" where
  "ModalState_unsubscribe l s =
     (called CallUnsubscribe s)\<lparr>subscribers := remove1 l (subscribers s)\<rparr>"

text \<open>
  Modelled from the spec: \<^verbatim>\<open>ModalState.getState\<close> returns the state of the store.
\<close>

definition ModalState_getState :: "'v system \<Rightarrow> (error + 'v modal_state) \<times> 'v system" where
  "ModalState_getState s =
     (case modalState s of
        None \<Rightarrow> (Inl StoreNotInitialised, called CallGetState s)
      | Some st \<Rightarrow> (Inr st, called CallGetState s))"

text \<open>
  Modelled from the spec: \<^verbatim>\<open>ModalState.openModal\<close> fails with \<open>UnknownModalError\<close> for a name
  that is not in the definition, and otherwise appends a new instance, the new topmost.
  The hash of the instance is generated inside the store; it is an argument here.
\<close>

definition ModalState_openModal ::
    "string \<Rightarrow> (string \<times> 'v) list \<Rightarrow> string \<Rightarrow> 'v system \<Rightarrow> (error + unit) \<times> 'v system" where
  "ModalState_openModal modalName params' newHash s =
     (case modalState s of
        None \<Rightarrow> (Inl StoreNotInitialised, called CallOpenModal s)
      | Some st \<Rightarrow>
          if modalName \<notin> set (names (stack st)) then (Inl UnknownModalError, called CallOpenModal s)
          else (Inr (),
                (called CallOpenModal s)\<lparr>modalState :=
                   Some (with_opened
                     (openedItems (stack st) @
                        [\<lparr>hash = newHash, name = modalName, params = params'\<rparr>]) st)\<rparr>))"

text \<open>
  Modelled from the spec: \<^verbatim>\<open>ModalState.getParam\<close> looks the instance up by its hash and
  returns the parameter when it is present, and the default value otherwise, also when
  no open instance has the hash.
\<close>

definition ModalState_getParam ::
    "string \<Rightarrow> string \<Rightarrow> 'v option \<Rightarrow> 'v system \<Rightarrow> (error + 'v option) \<times> 'v system" where
  "ModalState_getParam hash' paramName defaultValue s =
     (case modalState s of
        None \<Rightarrow> (Inl StoreNotInitialised, called CallGetParam s)
      | Some st \<Rightarrow>
          (Inr (case find (\<lambda>i. hash i = hash') (openedItems (stack st)) of
                  None \<Rightarrow> defaultValue
                | Some i \<Rightarrow>
                    (case map_of (params i) paramName of
                       None \<Rightarrow> defaultValue
                     | Some v \<Rightarrow> Some v)),
           called CallGetParam s))"

text \<open>
  Modelled from the spec: \<^verbatim>\<open>ModalState.closeModal\<close> removes the referenced instance wherever
  it is in the stack, and does nothing when it is not found; \<^verbatim>\<open>closeModals\<close> removes all
  instances of the name and keeps the order of the rest; \<^verbatim>\<open>closeAllModals\<close> empties the
  stack.
\<close>

definition ModalState_closeModal ::
    "'v modal_instance \<Rightarrow> 'v system \<Rightarrow> (error + unit) \<times> 'v system" where
  "ModalState_closeModal stackItem s =
     (case modalState s of
        None \<Rightarrow> (Inl StoreNotInitialised, called CallCloseModal s)
      | Some st \<Rightarrow>
          (Inr (),
           (called CallCloseModal s)\<lparr>modalState :=
              Some (with_opened
                (filter (\<lambda>i. hash i \<noteq> hash stackItem) (openedItems (stack st))) st)\<rparr>))"

definition ModalState_closeModals :: "string \<Rightarrow> 'v system \<Rightarrow> (error + unit) \<times> 'v system" where
  "ModalState_closeModals modalName s =
     (case modalState s of
        None \<Rightarrow> (Inl StoreNotInitialised, called CallCloseModals s)
      | Some st \<Rightarrow>
          (Inr (),
           (called CallCloseModals s)\<lparr>modalState :=
              Some (with_opened
                (filter (\<lambda>i. name i \<noteq> modalName) (openedItems (stack st))) st)\<rparr>))"

definition ModalState_closeAllModals :: "'v system \<Rightarrow> (error + unit) \<times> 'v system" where
  "ModalState_closeAllModals s =
     (case modalState s of
        None \<Rightarrow> (Inl StoreNotInitialised, called CallCloseAllModals s)
      | Some st \<Rightarrow>
          (Inr (), (called CallCloseAllModals s)\<lparr>modalState := Some (with_opened [] st)\<rparr>))"

text \<open>
  Modelled from the spec: \<^verbatim>\<open>ModalState.handleBackPress\<close> closes the topmost instance and
  reports handled when the stack is not empty, and reports unhandled when it is.
\<close>

definition ModalState_handleBackPress :: "'v system \<Rightarrow> (error + bool) \<times> 'v system" where
  "ModalState_handleBackPress s =
     (case modalState s of
        None \<Rightarrow> (Inl StoreNotInitialised, called CallHandleBackPress s)
      | Some st \<Rightarrow>
          if openedItems (stack st) = [] then (Inr False, called CallHandleBackPress s)
          else (Inr True,
                (called CallHandleBackPress s)\<lparr>modalState :=
                   Some (with_opened (butlast (openedItems (stack st))) st)\<rparr>))"

text \<open>
  Modelled from the spec: \<^verbatim>\<open>invariant\<close> is imported from \<^verbatim>\<open>../utils\<close>, which is not among
  the sources. The spec has the mount assert that a Stack Definition was supplied and
  fail fast with a \<open>ConfigurationError\<close> otherwise. The value asserted is an object or
  absent (\<^verbatim>\<open>undefined\<close> or \<^verbatim>\<open>null\<close>, the falsy values of an object-typed prop): \<open>None\<close> is
  the absent value, and a value that passes is returned.
\<close>

definition invariant :: "'a option \<Rightarrow> string \<Rightarrow> error + 'a" where
  "invariant condition message =
     (case condition of None \<Rightarrow> Inl (ConfigurationError message) | Some v \<Rightarrow> Inr v)"

subsection \<open>The provider's operations\<close>

text \<open>\<^verbatim>\<open>openModal\<close> (lines 39-50).\<close>

definition openModal ::
    "string \<Rightarrow> (string \<times> 'v) list \<Rightarrow> string \<Rightarrow> 'v system \<Rightarrow> (error + unit) \<times> 'v system" where
  "openModal modalName params' newHash s =
     (case ModalState_getState s of
        (Inl err, s1) \<Rightarrow> (Inl err, s1)
      | (Inr st, s1) \<Rightarrow>
          ModalState_openModal modalName params' newHash
            (if currentModal st = None
             then s1\<lparr>backHandlers :=
                      BackHandler_addEventListener HandleBackPress (backHandlers s1)\<rparr>
             else s1))"

text \<open>\<^verbatim>\<open>getParam\<close>, \<^verbatim>\<open>closeModal\<close>, \<^verbatim>\<open>closeModals\<close>, \<^verbatim>\<open>closeAllModals\<close> (lines 52-65).\<close>

definition getParam ::
    "string \<Rightarrow> string \<Rightarrow> 'v option \<Rightarrow> 'v system \<Rightarrow> (error + 'v option) \<times> 'v system" where
  "getParam hash' paramName defaultValue s = ModalState_getParam hash' paramName defaultValue s"

definition closeModal :: "'v modal_instance \<Rightarrow> 'v system \<Rightarrow> (error + unit) \<times> 'v system" where
  "closeModal stackItem s = ModalState_closeModal stackItem s"

definition closeModals :: "string \<Rightarrow> 'v system \<Rightarrow> (error + unit) \<times> 'v system" where
  "closeModals modalName s = ModalState_closeModals modalName s"

definition closeAllModals :: "'v system \<Rightarrow> (error + unit) \<times> 'v system" where
  "closeAllModals s = ModalState_closeAllModals s"

text \<open>
  The effect run at mount (lines 115-123) and the cleanup it returns, run at unmount
  (lines 125-131). The prop \<^verbatim>\<open>stack\<close> is \<open>None\<close> when it is absent.
\<close>

definition mount_effect :: "'v modal_stack option \<Rightarrow> 'v system \<Rightarrow> (error + unit) \<times> 'v system" where
  "mount_effect stack' s =
     (case invariant stack' ''You need to provide a `stack` prop to <ModalProvider>'' of
        Inl err \<Rightarrow> (Inl err, s)
      | Inr stk \<Rightarrow>
          (let s1 = ModalState_init \<lparr>currentModal = None, stack = stk\<rparr> s;
               (subscription, s2) = ModalState_subscribe ProviderListener s1
           in (Inr (), s2\<lparr>modalStateSubscription := Some subscription\<rparr>)))"

definition unmount_cleanup :: "'v system \<Rightarrow> 'v system" where
  "unmount_cleanup s =
     (let s1 = s\<lparr>backHandlers :=
                  BackHandler_removeEventListener HandleBackPress (backHandlers s)\<rparr>
      in case modalStateSubscription s1 of
           None \<Rightarrow> s1
         | Some subscription \<Rightarrow> ModalState_unsubscribe subscription s1)"

text \<open>
  A press of the hardware back button: the platform calls the handlers subscribed at
  \<^verbatim>\<open>BackHandler\<close>; of these the provider subscribes \<^verbatim>\<open>ModalState.handleBackPress\<close> only, and
  a press that reaches no handler of the store is unhandled.
\<close>

definition hardwareBackPress :: "'v system \<Rightarrow> (error + bool) \<times> 'v system" where
  "hardwareBackPress s =
     (if HandleBackPress \<in> set (backHandlers s) then ModalState_handleBackPress s
      else (Inr False, s))"

text \<open>
  The operations on a mounted provider, and a run of them. \<open>current\<close> and \<open>opened\<close>
  read \<^verbatim>\<open>currentModal\<close> and the open instances off the store. \<open>mounted\<close> is the state
  after the mount of a provider whose \<^verbatim>\<open>stack\<close> prop is a Stack Definition with the modal
  names given, no instance being open yet.
\<close>

datatype 'v provider_op =
    OpenModal string "(string \<times> 'v) list" string
  | GetParam string string "'v option"
  | CloseModal "'v modal_instance"
  | CloseModals string
  | CloseAllModals
  | HardwareBackPress

fun apply_op :: "'v provider_op \<Rightarrow> 'v system \<Rightarrow> 'v system" where
  "apply_op (OpenModal modalName params' newHash) s = snd (openModal modalName params' newHash s)"
| "apply_op (GetParam hash' paramName defaultValue) s = snd (getParam hash' paramName defaultValue s)"
| "apply_op (CloseModal stackItem) s = snd (closeModal stackItem s)"
| "apply_op (CloseModals modalName) s = snd (closeModals modalName s)"
| "apply_op CloseAllModals s = snd (closeAllModals s)"
| "apply_op HardwareBackPress s = snd (hardwareBackPress s)"

definition run :: "'v provider_op list \<Rightarrow> 'v system \<Rightarrow> 'v system" where
  "run ops s = fold apply_op ops s"

fun is_OpenModal :: "'v provider_op \<Rightarrow> bool" where
  "is_OpenModal (OpenModal _ _ _) = True"
| "is_OpenModal _ = False"

definition current :: "'v system \<Rightarrow> 'v modal_instance option" where
  "current s = (case modalState s of None \<Rightarrow> None | Some st \<Rightarrow> currentModal st)"

definition opened :: "'v system \<Rightarrow> 'v modal_instance list" where
  "opened s = (case modalState s of None \<Rightarrow> [] | Some st \<Rightarrow> openedItems (stack st))"

definition mounted :: "string list \<Rightarrow> 'v system \<Rightarrow> 'v system" where
  "mounted definition' s = snd (mount_effect (Some \<lparr>names = definition', openedItems = []\<rparr>) s)"

text \<open>
  What holds of the shared state after the mount and after every operation: the store
  is initialised, \<^verbatim>\<open>currentModal\<close> is the last open instance or none, the handler of the
  store is subscribed whenever an instance is open, and \<^verbatim>\<open>BackHandler\<close> holds every handler
  once.
\<close>

definition bridge_inv :: "'v system \<Rightarrow> bool" where
  "bridge_inv s =
     (case modalState s of
        None \<Rightarrow> False
      | Some st \<Rightarrow>
          currentModal st =
            (if openedItems (stack st) = [] then None else Some (last (openedItems (stack st)))) \<and>
          (openedItems (stack st) = [] \<or> HandleBackPress \<in> set (backHandlers s)) \<and>
          distinct (backHandlers s))"

section \<open>The displayed context value\<close>

text \<open>
  \<^verbatim>\<open>contextValue\<close> (lines 67-77) is the state \<^verbatim>\<open>{ currentModal, stack }\<close> extended with the
  five closures of the provider; a closure is a value of \<open>'f\<close>. The fields of the
  closures carry the prefix \<open>ctx\<close>, their names being those of the operations above.
\<close>

record ('v, 'f) modal_context = "'v modal_state" +
  ctx_closeAllModals :: 'f
  ctx_closeModals :: 'f
  ctx_closeModal :: 'f
  ctx_openModal :: 'f
  ctx_getParam :: 'f

datatype 'e console_call = Warn string 'e

record ('v, 'f, 'e) ui =
  contextValue :: "('v, 'f) modal_context"
  console :: "'e console_call list"

text \<open>
  \<^verbatim>\<open>listener\<close> (lines 105-113). Its first argument is the \<^verbatim>\<open>contextValue\<close> the closure
  captured; \<^verbatim>\<open>setContextValue\<close> replaces the displayed value, \<^verbatim>\<open>console.warn\<close> appends to
  the console.
\<close>

definition listener ::
    "('v, 'f) modal_context \<Rightarrow> 'v modal_state option \<Rightarrow> 'e \<Rightarrow> ('v, 'f, 'e) ui \<Rightarrow> ('v, 'f, 'e) ui" where
  "listener contextValue' modalState' error' u =
     (case modalState' of
        Some ms \<Rightarrow>
          u\<lparr>contextValue := contextValue'\<lparr>currentModal := currentModal ms, stack := stack ms\<rparr>\<rparr>
      | None \<Rightarrow> u\<lparr>console := console u @ [Warn ''Modalfy'' error']\<rparr>)"

text \<open>
  The first render: \<^verbatim>\<open>useState\<close> takes the initial context value, and the effect, run
  once (its dependency list is empty), subscribes the \<^verbatim>\<open>listener\<close> of that render, which
  captured that value. \<open>deliver\<close> is the store notifying the subscribed listener.
\<close>

definition initial_context ::
    "'f \<Rightarrow> 'f \<Rightarrow> 'f \<Rightarrow> 'f \<Rightarrow> 'f \<Rightarrow> 'v modal_stack \<Rightarrow> ('v, 'f) modal_context" where
  "initial_context closeAllModals' closeModals' closeModal' openModal' getParam' stack' =
     \<lparr>currentModal = None, stack = stack',
      ctx_closeAllModals = closeAllModals', ctx_closeModals = closeModals',
      ctx_closeModal = closeModal', ctx_openModal = openModal', ctx_getParam = getParam'\<rparr>"

definition first_render :: "('v, 'f) modal_context \<Rightarrow> ('v, 'f, 'e) ui" where
  "first_render c0 = \<lparr>contextValue = c0, console = []\<rparr>"

definition deliver ::
    "('v, 'f) modal_context \<Rightarrow> ('v modal_state option \<times> 'e) list \<Rightarrow> ('v, 'f, 'e) ui \<Rightarrow> ('v, 'f, 'e) ui" where
  "deliver c0 notifications u = fold (\<lambda>(ms, err). listener c0 ms err) notifications u"

section \<open>Properties of the registry\<close>

lemma string_includes_iff_sublist: "string_includes s t \<longleftrightarrow> sublist t s"
proof
  assume "string_includes s t"
  then have "\<exists>k. take (length t) (drop k s) = t"
    unfolding string_includes_def list_ex_iff by blast
  then obtain k where "take (length t) (drop k s) = t" ..
  then have "s = take k s @ t @ drop (length t) (drop k s)"
    by (metis append_take_drop_id)
  then show "sublist t s"
    unfolding sublist_def by blast
next
  assume "sublist t s"
  then obtain ps ss where s: "s = ps @ t @ ss"
    unfolding sublist_def by blast
  have "length ps \<in> set [0 ..< Suc (length s - length t)]"
    using s by simp
  moreover have "take (length t) (drop (length ps) s) = t"
    using s by simp
  moreover have "length t \<le> length s"
    using s by simp
  ultimately show "string_includes s t"
    unfolding string_includes_def list_ex_iff by blast
qed

lemma string_includes_empty: "string_includes s []"
  by (simp add: string_includes_iff_sublist)

lemma string_includes_prefix: "string_includes (h @ s) h"
  by (simp add: string_includes_iff_sublist)

lemma entries_fold_delete:
  "entries (fold (\<lambda>item r. if P item then snd (set_delete item r) else r) xs reg) =
     filter (\<lambda>l. \<not> (\<exists>x \<in> set xs. P x \<and> ident x = ident l)) (entries reg)"
proof (induction xs arbitrary: reg)
  case Nil
  show ?case by simp
next
  case (Cons x xs)
  show ?case
  proof (cases "P x")
    case True
    then show ?thesis
      by (auto simp: Cons.IH set_delete_def intro!: filter_cong)
  next
    case False
    then show ?thesis
      by (auto simp: Cons.IH intro!: filter_cong)
  qed
qed

lemma next_ident_fold_delete:
  "next_ident (fold (\<lambda>item r. if P item then snd (set_delete item r) else r) xs reg) =
     next_ident reg"
  by (induction xs arbitrary: reg) (simp_all add: set_delete_def)

lemma entries_clearListeners:
  "entries (clearListeners h reg) =
     filter (\<lambda>l. \<not> (\<exists>x \<in> set (entries reg). string_includes (event x) h \<and> ident x = ident l))
       (entries reg)"
  unfolding clearListeners_def by (rule entries_fold_delete)

lemma next_ident_clearListeners: "next_ident (clearListeners h reg) = next_ident reg"
  unfolding clearListeners_def by (rule next_ident_fold_delete)

lemma wf_empty_registry: "wf_registry empty_registry"
  by (simp add: wf_registry_def empty_registry_def)

lemma set_add_fresh:
  "wf_registry reg \<Longrightarrow>
   set_add \<lparr>ident = next_ident reg, event = k, handler = f\<rparr> (reg\<lparr>next_ident := n\<rparr>) =
     reg\<lparr>entries := entries reg @ [\<lparr>ident = next_ident reg, event = k, handler = f\<rparr>], next_ident := n\<rparr>"
  by (auto simp: set_add_def wf_registry_def list_all_iff)

lemma registerListener_invalid:
  "eventName = [] \<or> \<not> callable handler' \<Longrightarrow>
   registerListener hash' eventName handler' reg = (Inl InvalidListenerError, reg)"
  by (simp add: registerListener_def validateListener_def)

lemma registerListener_valid:
  assumes "wf_registry reg" and "validateListener ''add'' eventName handler' = Inr ()"
  shows "registerListener hash' eventName handler' reg =
     (Inr \<lparr>ident = next_ident reg, event = hash' @ ''_'' @ eventName, handler = handler'\<rparr>,
      reg\<lparr>entries := entries reg @
             [\<lparr>ident = next_ident reg, event = hash' @ ''_'' @ eventName, handler = handler'\<rparr>],
          next_ident := Suc (next_ident reg)\<rparr>)"
  using assms by (simp add: registerListener_def set_add_fresh Let_def)

lemma registerListener_Inr_entry:
  "registerListener hash' eventName handler' reg = (Inr d, reg1) \<Longrightarrow>
   d = \<lparr>ident = next_ident reg, event = hash' @ ''_'' @ eventName, handler = handler'\<rparr>"
  by (auto simp: registerListener_def Let_def split: sum.splits)

lemma registerListener_InrD:
  assumes "wf_registry reg" and "registerListener hash' eventName handler' reg = (Inr d, reg1)"
  shows "d = \<lparr>ident = next_ident reg, event = hash' @ ''_'' @ eventName, handler = handler'\<rparr>"
    and "reg1 = reg\<lparr>entries := entries reg @ [d], next_ident := Suc (next_ident reg)\<rparr>"
    and "eventName \<noteq> []" and "callable handler'"
  using assms
  by (auto simp: registerListener_def validateListener_def set_add_fresh Let_def split: if_splits)

lemma wf_registerListener:
  "wf_registry reg \<Longrightarrow> wf_registry (snd (registerListener hash' eventName handler' reg))"
  by (cases "validateListener ''add'' eventName handler'")
     (auto simp: registerListener_def set_add_fresh Let_def wf_registry_def list_all_iff
           elim: less_SucI)

lemma wf_remove: "wf_registry reg \<Longrightarrow> wf_registry (snd (remove d reg))"
  by (auto simp: remove_def set_delete_def wf_registry_def list_all_iff distinct_map_filter)

lemma wf_clearListeners: "wf_registry reg \<Longrightarrow> wf_registry (clearListeners h reg)"
  by (auto simp: wf_registry_def list_all_iff entries_clearListeners distinct_map_filter
        next_ident_clearListeners)

text \<open>
  What does hold of \<^verbatim>\<open>clearListeners\<close>: on a reachable registry it deletes the entries whose
  key includes the hash, and no entry that an emission for the hash would match is
  left.
\<close>

lemma clearListeners_filter:
  assumes "wf_registry reg"
  shows "entries (clearListeners h reg) =
           filter (\<lambda>l. \<not> string_includes (event l) h) (entries reg)"
proof -
  have inj: "inj_on ident (set (entries reg))"
    using assms by (simp add: wf_registry_def distinct_map)
  show ?thesis
    unfolding entries_clearListeners
    by (rule filter_cong) (auto dest: inj_onD [OF inj])
qed

lemma clearListeners_no_match_left: "emit_matches h e (clearListeners h reg) = []"
proof -
  have "\<not> (l \<in> set (entries (clearListeners h reg)) \<and> event l = h @ ''_'' @ e)" for l
  proof
    assume a: "l \<in> set (entries (clearListeners h reg)) \<and> event l = h @ ''_'' @ e"
    then have "l \<in> set (entries reg)"
      and "\<not> (\<exists>x \<in> set (entries reg). string_includes (event x) h \<and> ident x = ident l)"
      by (simp_all add: entries_clearListeners)
    moreover have "string_includes (event l) h"
      using a string_includes_prefix [of h "''_'' @ e"] by simp
    ultimately show False by blast
  qed
  then show ?thesis
    by (auto simp: emit_matches_def filter_empty_conv)
qed

text \<open>
  C1. The code deletes more than the entries scoped to the hash. Clearing the hash
  \<open>abc\<close> also deletes the entry registered under the hash
  \<open>abcd\<close>, of which \<open>abc\<close> is a prefix, and the entry registered under the hash \<open>xyz\<close>
  for the event name \<open>abc\<close>: after the three registrations the keys are \<open>abc_go\<close>,
  \<open>abcd_go\<close> and \<open>xyz_abc\<close>, each of them includes \<open>abc\<close>, and the registry is empty
  after the call.
\<close>

theorem clearListeners_substring_overreach:
  "map event (entries
       (snd (registerListener ''xyz'' ''abc'' (JSFunction 2)
         (snd (registerListener ''abcd'' ''go'' (JSFunction 1)
           (snd (registerListener ''abc'' ''go'' (JSFunction 0) empty_registry)))))))
     = [''abc_go'', ''abcd_go'', ''xyz_abc''] \<and>
   entries (clearListeners ''abc''
       (snd (registerListener ''xyz'' ''abc'' (JSFunction 2)
         (snd (registerListener ''abcd'' ''go'' (JSFunction 1)
           (snd (registerListener ''abc'' ''go'' (JSFunction 0) empty_registry))))))) = []"
  by (simp add: clearListeners_def registerListener_def validateListener_def callable_def
        set_add_def set_delete_def empty_registry_def string_includes_def Let_def)

lemma key_collision_separator:
  assumes "h1 @ CHR ''_'' # e1 = h2 @ CHR ''_'' # e2" and "(h1, e1) \<noteq> (h2, e2)"
  shows "(CHR ''_'' \<in> set h1 \<and> CHR ''_'' \<in> set e2) \<or>
         (CHR ''_'' \<in> set h2 \<and> CHR ''_'' \<in> set e1)"
proof -
  from assms(1) obtain us where
    us: "(h1 = h2 @ us \<and> us @ CHR ''_'' # e1 = CHR ''_'' # e2) \<or>
         (h1 @ us = h2 \<and> CHR ''_'' # e1 = us @ CHR ''_'' # e2)"
    by (auto simp: append_eq_append_conv2)
  have ne: "us \<noteq> []"
    using us assms(2) by auto
  then obtain c vs where cv: "us = c # vs"
    by (cases us) auto
  from us show ?thesis
  proof
    assume a: "h1 = h2 @ us \<and> us @ CHR ''_'' # e1 = CHR ''_'' # e2"
    then have "c = CHR ''_''" and "e2 = vs @ CHR ''_'' # e1"
      using cv by simp_all
    then show ?thesis using a cv by simp
  next
    assume a: "h1 @ us = h2 \<and> CHR ''_'' # e1 = us @ CHR ''_'' # e2"
    then have "c = CHR ''_''" and "e1 = vs @ CHR ''_'' # e2"
      using cv by simp_all
    then show ?thesis using a cv by auto
  qed
qed

text \<open>
  C2. Two successful registrations with distinct pairs of hash and event name store
  distinct keys, the separator \<open>_\<close> being reserved: it does not occur both in the hash of
  one pair and in the event name of the other, as is the case when no event name
  contains it, or no hash. Then, in every registry \<open>r\<close>, an emission for one pair
  matches the entry of that pair when it is a member, and never the entry of the other
  pair. The registrations of \<open>(abc, go)\<close> and \<open>(abcd, go)\<close> are such a case.
\<close>

theorem registerListener_keys_distinct:
  assumes "registerListener h1 e1 f1 rega = (Inr d1, rega')"
    and "registerListener h2 e2 f2 regb = (Inr d2, regb')"
    and "(h1, e1) \<noteq> (h2, e2)"
    and "\<not> (CHR ''_'' \<in> set h1 \<and> CHR ''_'' \<in> set e2)"
    and "\<not> (CHR ''_'' \<in> set h2 \<and> CHR ''_'' \<in> set e1)"
  shows "event d1 = h1 @ ''_'' @ e1 \<and> event d2 = h2 @ ''_'' @ e2 \<and> event d1 \<noteq> event d2 \<and>
         d2 \<notin> set (emit_matches h1 e1 r) \<and> d1 \<notin> set (emit_matches h2 e2 r) \<and>
         (d1 \<in> set (entries r) \<longrightarrow> d1 \<in> set (emit_matches h1 e1 r)) \<and>
         (d2 \<in> set (entries r) \<longrightarrow> d2 \<in> set (emit_matches h2 e2 r))"
proof -
  have k1: "event d1 = h1 @ ''_'' @ e1"
    using registerListener_Inr_entry [OF assms(1)] by simp
  have k2: "event d2 = h2 @ ''_'' @ e2"
    using registerListener_Inr_entry [OF assms(2)] by simp
  have ne: "h1 @ ''_'' @ e1 \<noteq> h2 @ ''_'' @ e2"
    using key_collision_separator [of h1 e1 h2 e2] assms(3,4,5) by auto
  show ?thesis
    using k1 k2 ne by (auto simp: emit_matches_def)
qed

theorem registerListener_keys_distinct_witness:
  "registerListener ''abc'' ''go'' (JSFunction 0) empty_registry =
     (Inr \<lparr>ident = 0, event = ''abc_go'', handler = JSFunction 0\<rparr>,
      \<lparr>entries = [\<lparr>ident = 0, event = ''abc_go'', handler = JSFunction 0\<rparr>], next_ident = 1\<rparr>) \<and>
   registerListener ''abcd'' ''go'' (JSFunction 1)
       \<lparr>entries = [\<lparr>ident = 0, event = ''abc_go'', handler = JSFunction 0\<rparr>], next_ident = 1\<rparr> =
     (Inr \<lparr>ident = 1, event = ''abcd_go'', handler = JSFunction 1\<rparr>,
      \<lparr>entries = [\<lparr>ident = 0, event = ''abc_go'', handler = JSFunction 0\<rparr>,
                  \<lparr>ident = 1, event = ''abcd_go'', handler = JSFunction 1\<rparr>], next_ident = 2\<rparr>) \<and>
   (''abc'', ''go'') \<noteq> (''abcd'', ''go'') \<and>
   \<not> (CHR ''_'' \<in> set ''abc'' \<and> CHR ''_'' \<in> set ''go'') \<and>
   \<not> (CHR ''_'' \<in> set ''abcd'' \<and> CHR ''_'' \<in> set ''go'') \<and>
   ''abc_go'' \<noteq> ''abcd_go'' \<and>
   emit_matches ''abc'' ''go''
      \<lparr>entries = [\<lparr>ident = 0, event = ''abc_go'', handler = JSFunction 0\<rparr>,
                  \<lparr>ident = 1, event = ''abcd_go'', handler = JSFunction 1\<rparr>], next_ident = 2\<rparr> =
     [\<lparr>ident = 0, event = ''abc_go'', handler = JSFunction 0\<rparr>] \<and>
   emit_matches ''abcd'' ''go''
      \<lparr>entries = [\<lparr>ident = 0, event = ''abc_go'', handler = JSFunction 0\<rparr>,
                  \<lparr>ident = 1, event = ''abcd_go'', handler = JSFunction 1\<rparr>], next_ident = 2\<rparr> =
     [\<lparr>ident = 1, event = ''abcd_go'', handler = JSFunction 1\<rparr>] \<and>
   registerListener ''Alert_k3'' ''onClose'' (JSFunction 2) empty_registry =
     (Inr \<lparr>ident = 0, event = ''Alert_k3_onClose'', handler = JSFunction 2\<rparr>,
      \<lparr>entries = [\<lparr>ident = 0, event = ''Alert_k3_onClose'', handler = JSFunction 2\<rparr>],
       next_ident = 1\<rparr>) \<and>
   registerListener ''Alert'' ''onClose'' (JSFunction 3) empty_registry =
     (Inr \<lparr>ident = 0, event = ''Alert_onClose'', handler = JSFunction 3\<rparr>,
      \<lparr>entries = [\<lparr>ident = 0, event = ''Alert_onClose'', handler = JSFunction 3\<rparr>],
       next_ident = 1\<rparr>) \<and>
   ''Alert_k3_onClose'' \<noteq> ''Alert_onClose''"
proof -
  have r1: "registerListener ''abc'' ''go'' (JSFunction 0) empty_registry =
     (Inr \<lparr>ident = 0, event = ''abc_go'', handler = JSFunction 0\<rparr>,
      \<lparr>entries = [\<lparr>ident = 0, event = ''abc_go'', handler = JSFunction 0\<rparr>], next_ident = 1\<rparr>)"
    by (simp add: registerListener_def validateListener_def callable_def set_add_def
          empty_registry_def Let_def)
  have r2: "registerListener ''abcd'' ''go'' (JSFunction 1)
       \<lparr>entries = [\<lparr>ident = 0, event = ''abc_go'', handler = JSFunction 0\<rparr>], next_ident = 1\<rparr> =
     (Inr \<lparr>ident = 1, event = ''abcd_go'', handler = JSFunction 1\<rparr>,
      \<lparr>entries = [\<lparr>ident = 0, event = ''abc_go'', handler = JSFunction 0\<rparr>,
                  \<lparr>ident = 1, event = ''abcd_go'', handler = JSFunction 1\<rparr>], next_ident = 2\<rparr>)"
    by (simp add: registerListener_def validateListener_def callable_def set_add_def Let_def)
  have ne: "(''abc'', ''go'') \<noteq> (''abcd'', ''go'')"
    by simp
  have s1: "\<not> (CHR ''_'' \<in> set ''abc'' \<and> CHR ''_'' \<in> set ''go'')"
    by simp
  have s2: "\<not> (CHR ''_'' \<in> set ''abcd'' \<and> CHR ''_'' \<in> set ''go'')"
    by simp
  have r3: "registerListener ''Alert_k3'' ''onClose'' (JSFunction 2) empty_registry =
     (Inr \<lparr>ident = 0, event = ''Alert_k3_onClose'', handler = JSFunction 2\<rparr>,
      \<lparr>entries = [\<lparr>ident = 0, event = ''Alert_k3_onClose'', handler = JSFunction 2\<rparr>],
       next_ident = 1\<rparr>)"
    by (simp add: registerListener_def validateListener_def callable_def set_add_def
          empty_registry_def Let_def)
  have r4: "registerListener ''Alert'' ''onClose'' (JSFunction 3) empty_registry =
     (Inr \<lparr>ident = 0, event = ''Alert_onClose'', handler = JSFunction 3\<rparr>,
      \<lparr>entries = [\<lparr>ident = 0, event = ''Alert_onClose'', handler = JSFunction 3\<rparr>],
       next_ident = 1\<rparr>)"
    by (simp add: registerListener_def validateListener_def callable_def set_add_def
          empty_registry_def Let_def)
  have ne': "(''Alert_k3'', ''onClose'') \<noteq> (''Alert'', ''onClose'')"
    by simp
  have s3: "\<not> (CHR ''_'' \<in> set ''Alert_k3'' \<and> CHR ''_'' \<in> set ''onClose'')"
    by simp
  have s4: "\<not> (CHR ''_'' \<in> set ''Alert'' \<and> CHR ''_'' \<in> set ''onClose'')"
    by simp
  show ?thesis
    using registerListener_keys_distinct [OF r1 r2 ne s1 s2] registerListener_keys_distinct [OF r3 r4 ne' s3 s4] r1 r2 r3 r4
    by (simp add: emit_matches_def)
qed

text \<open>
  C6. A registration with an empty event name or a handler that is not callable fails
  with \<open>InvalidListenerError\<close> and leaves the registry as it was; any other registration
  appends exactly one new entry, whose key is the hash, the separator and the event
  name.
\<close>

theorem registerListener_validates:
  assumes "wf_registry reg"
  shows "(eventName = [] \<or> \<not> callable handler' \<longrightarrow>
            registerListener hash' eventName handler' reg = (Inl InvalidListenerError, reg)) \<and>
         (eventName \<noteq> [] \<and> callable handler' \<longrightarrow>
            (\<exists>new. registerListener hash' eventName handler' reg =
                     (Inr new, reg\<lparr>entries := entries reg @ [new],
                                   next_ident := Suc (next_ident reg)\<rparr>) \<and>
                   event new = hash' @ ''_'' @ eventName \<and> handler new = handler' \<and>
                   ident new \<notin> ident ` set (entries reg)))"
proof (intro conjI impI)
  assume "eventName = [] \<or> \<not> callable handler'"
  then show "registerListener hash' eventName handler' reg = (Inl InvalidListenerError, reg)"
    by (rule registerListener_invalid)
next
  assume "eventName \<noteq> [] \<and> callable handler'"
  then have "validateListener ''add'' eventName handler' = Inr ()"
    by (simp add: validateListener_def)
  from registerListener_valid [OF assms this, of hash']
  show "\<exists>new. registerListener hash' eventName handler' reg =
                 (Inr new, reg\<lparr>entries := entries reg @ [new],
                               next_ident := Suc (next_ident reg)\<rparr>) \<and>
               event new = hash' @ ''_'' @ eventName \<and> handler new = handler' \<and>
               ident new \<notin> ident ` set (entries reg)"
    using assms by (auto simp: wf_registry_def list_all_iff)
qed

theorem registerListener_validates_witness:
  "wf_registry empty_registry \<and>
   registerListener ''abc'' [] (JSFunction 0) empty_registry =
     (Inl InvalidListenerError, empty_registry) \<and>
   registerListener ''abc'' ''go'' JSUndefined empty_registry =
     (Inl InvalidListenerError, empty_registry) \<and>
   registerListener ''abc'' ''go'' (JSFunction 0) empty_registry =
     (Inr \<lparr>ident = 0, event = ''abc_go'', handler = JSFunction 0\<rparr>,
      \<lparr>entries = [\<lparr>ident = 0, event = ''abc_go'', handler = JSFunction 0\<rparr>], next_ident = 1\<rparr>)"
proof -
  have wf: "wf_registry empty_registry"
    by (rule wf_empty_registry)
  have a: "registerListener ''abc'' [] (JSFunction 0) empty_registry =
             (Inl InvalidListenerError, empty_registry)"
    using registerListener_validates [OF wf, where eventName = "[]"] by simp
  have b: "registerListener ''abc'' ''go'' JSUndefined empty_registry =
             (Inl InvalidListenerError, empty_registry)"
    using registerListener_validates [OF wf, where handler' = JSUndefined]
    by (simp add: callable_def)
  have c: "registerListener ''abc'' ''go'' (JSFunction 0) empty_registry =
     (Inr \<lparr>ident = 0, event = ''abc_go'', handler = JSFunction 0\<rparr>,
      \<lparr>entries = [\<lparr>ident = 0, event = ''abc_go'', handler = JSFunction 0\<rparr>], next_ident = 1\<rparr>)"
    by (simp add: registerListener_def validateListener_def callable_def set_add_def
          empty_registry_def Let_def)
  show ?thesis using wf a b c by simp
qed

text \<open>
  C7. The disposer of a successful registration deletes the entry of that registration
  and no other: right after the registration it restores the entries there were; an
  entry registered afterwards with the same hash, event name and handler stays; in every
  registry \<open>r\<close> every entry of another identity stays. A second call finds nothing to
  delete, answers \<open>False\<close> and leaves the registry as the first call left it.
\<close>

theorem disposer_remove_exact:
  assumes "wf_registry reg" and "registerListener hash' eventName handler' reg = (Inr d, reg1)"
  shows "remove d reg1 = (True, reg1\<lparr>entries := entries reg\<rparr>) \<and>
         (registerListener hash' eventName handler' reg1 = (Inr d2, reg2) \<longrightarrow>
            event d2 = event d \<and> handler d2 = handler d \<and>
            entries reg2 = entries reg @ [d, d2] \<and>
            entries (snd (remove d reg2)) = entries reg @ [d2]) \<and>
         (l \<in> set (entries r) \<and> ident l \<noteq> ident d \<longrightarrow> l \<in> set (entries (snd (remove d r)))) \<and>
         remove d (snd (remove d r)) = (False, snd (remove d r))"
proof -
  note r1 = registerListener_InrD [OF assms]
  have fresh: "\<forall>x \<in> set (entries reg). ident x \<noteq> ident d"
    using assms(1) r1(1) by (auto simp: wf_registry_def list_all_iff)
  then have keep: "filter (\<lambda>l. ident l \<noteq> ident d) (entries reg) = entries reg"
    by (simp add: filter_id_conv)
  have a: "remove d reg1 = (True, reg1\<lparr>entries := entries reg\<rparr>)"
    using r1(2) keep by (simp add: remove_def set_delete_def)
  have wf1: "wf_registry reg1"
    using wf_registerListener [OF assms(1), of hash' eventName handler'] assms(2) by simp
  have b: "event d2 = event d \<and> handler d2 = handler d \<and>
           entries reg2 = entries reg @ [d, d2] \<and>
           entries (snd (remove d reg2)) = entries reg @ [d2]"
    if reg2: "registerListener hash' eventName handler' reg1 = (Inr d2, reg2)"
  proof -
    note r2 = registerListener_InrD [OF wf1 reg2]
    have "ident d2 \<noteq> ident d" using r1 r2(1) by simp
    then show ?thesis
      using r1 r2(1,2) keep by (simp add: remove_def set_delete_def)
  qed
  have c: "remove d (snd (remove d r)) = (False, snd (remove d r))"
    by (auto simp: remove_def set_delete_def)
  show ?thesis using a b c by (auto simp: remove_def set_delete_def)
qed

theorem disposer_remove_exact_witness:
  "wf_registry empty_registry \<and>
   registerListener ''abc'' ''go'' (JSFunction 0) empty_registry =
     (Inr \<lparr>ident = 0, event = ''abc_go'', handler = JSFunction 0\<rparr>,
      \<lparr>entries = [\<lparr>ident = 0, event = ''abc_go'', handler = JSFunction 0\<rparr>], next_ident = 1\<rparr>) \<and>
   registerListener ''abc'' ''go'' (JSFunction 0)
       \<lparr>entries = [\<lparr>ident = 0, event = ''abc_go'', handler = JSFunction 0\<rparr>], next_ident = 1\<rparr> =
     (Inr \<lparr>ident = 1, event = ''abc_go'', handler = JSFunction 0\<rparr>,
      \<lparr>entries = [\<lparr>ident = 0, event = ''abc_go'', handler = JSFunction 0\<rparr>,
                  \<lparr>ident = 1, event = ''abc_go'', handler = JSFunction 0\<rparr>], next_ident = 2\<rparr>) \<and>
   entries (snd (remove \<lparr>ident = 0, event = ''abc_go'', handler = JSFunction 0\<rparr>
      \<lparr>entries = [\<lparr>ident = 0, event = ''abc_go'', handler = JSFunction 0\<rparr>,
                  \<lparr>ident = 1, event = ''abc_go'', handler = JSFunction 0\<rparr>], next_ident = 2\<rparr>)) =
     [\<lparr>ident = 1, event = ''abc_go'', handler = JSFunction 0\<rparr>] \<and>
   remove \<lparr>ident = 0, event = ''abc_go'', handler = JSFunction 0\<rparr>
      \<lparr>entries = [\<lparr>ident = 1, event = ''abc_go'', handler = JSFunction 0\<rparr>], next_ident = 2\<rparr> =
     (False, \<lparr>entries = [\<lparr>ident = 1, event = ''abc_go'', handler = JSFunction 0\<rparr>],
              next_ident = 2\<rparr>)"
proof -
  have wf: "wf_registry empty_registry"
    by (rule wf_empty_registry)
  have r1: "registerListener ''abc'' ''go'' (JSFunction 0) empty_registry =
     (Inr \<lparr>ident = 0, event = ''abc_go'', handler = JSFunction 0\<rparr>,
      \<lparr>entries = [\<lparr>ident = 0, event = ''abc_go'', handler = JSFunction 0\<rparr>], next_ident = 1\<rparr>)"
    by (simp add: registerListener_def validateListener_def callable_def set_add_def
          empty_registry_def Let_def)
  have r2: "registerListener ''abc'' ''go'' (JSFunction 0)
       \<lparr>entries = [\<lparr>ident = 0, event = ''abc_go'', handler = JSFunction 0\<rparr>], next_ident = 1\<rparr> =
     (Inr \<lparr>ident = 1, event = ''abc_go'', handler = JSFunction 0\<rparr>,
      \<lparr>entries = [\<lparr>ident = 0, event = ''abc_go'', handler = JSFunction 0\<rparr>,
                  \<lparr>ident = 1, event = ''abc_go'', handler = JSFunction 0\<rparr>], next_ident = 2\<rparr>)"
    by (simp add: registerListener_def validateListener_def callable_def set_add_def Let_def)
  show ?thesis
    using disposer_remove_exact [OF wf r1,
        where ?d2.0 = "\<lparr>ident = 1, event = ''abc_go'', handler = JSFunction 0\<rparr>"
          and ?reg2.0 = "\<lparr>entries = [\<lparr>ident = 0, event = ''abc_go'', handler = JSFunction 0\<rparr>,
                  \<lparr>ident = 1, event = ''abc_go'', handler = JSFunction 0\<rparr>], next_ident = 2\<rparr>"
          and r = "\<lparr>entries = [\<lparr>ident = 0, event = ''abc_go'', handler = JSFunction 0\<rparr>,
                  \<lparr>ident = 1, event = ''abc_go'', handler = JSFunction 0\<rparr>], next_ident = 2\<rparr>"]
      wf r1 r2
    by (simp add: remove_def set_delete_def)
qed

text \<open>
  C9. Clearing with the empty string as hash empties the registry, whatever hash and
  event name each entry was registered under: every event key includes the empty
  string.
\<close>

theorem clearListeners_empty_hash_removes_all:
  "entries (clearListeners [] reg) = []"
  by (simp add: entries_clearListeners string_includes_empty filter_empty_conv) blast

text \<open>
  C10. The hash is not validated: with a valid event name and handler the registration
  succeeds for every hash and stores the key made of the hash, the separator and the
  event name; for the empty hash the key begins with the separator.
\<close>

theorem registerListener_any_hash:
  assumes "wf_registry reg" and "validateListener ''add'' eventName handler' = Inr ()"
  shows "registerListener hash' eventName handler' reg =
           (Inr \<lparr>ident = next_ident reg, event = hash' @ ''_'' @ eventName, handler = handler'\<rparr>,
            reg\<lparr>entries := entries reg @
                   [\<lparr>ident = next_ident reg, event = hash' @ ''_'' @ eventName,
                     handler = handler'\<rparr>],
                next_ident := Suc (next_ident reg)\<rparr>) \<and>
         fst (registerListener [] eventName handler' reg) =
           Inr \<lparr>ident = next_ident reg, event = CHR ''_'' # eventName, handler = handler'\<rparr>"
  using registerListener_valid [OF assms] by simp

theorem registerListener_any_hash_witness:
  "wf_registry empty_registry \<and> validateListener ''add'' ''go'' (JSFunction 0) = Inr () \<and>
   registerListener [] ''go'' (JSFunction 0) empty_registry =
     (Inr \<lparr>ident = 0, event = ''_go'', handler = JSFunction 0\<rparr>,
      \<lparr>entries = [\<lparr>ident = 0, event = ''_go'', handler = JSFunction 0\<rparr>], next_ident = 1\<rparr>)"
proof -
  have wf: "wf_registry empty_registry"
    by (rule wf_empty_registry)
  have v: "validateListener ''add'' ''go'' (JSFunction 0) = Inr ()"
    by (simp add: validateListener_def callable_def)
  show ?thesis
    using registerListener_any_hash [OF wf v, of "[]"] wf v
    by (simp add: empty_registry_def)
qed

section \<open>Properties of the hardware-back handler and of the mount\<close>

lemmas store_defs =
  ModalState_getState_def ModalState_openModal_def ModalState_getParam_def
  ModalState_closeModal_def ModalState_closeModals_def ModalState_closeAllModals_def
  ModalState_handleBackPress_def called_def with_opened_def

lemmas provider_defs =
  openModal_def getParam_def closeModal_def closeModals_def closeAllModals_def
  hardwareBackPress_def

lemma distinct_addEventListener:
  "distinct hs \<Longrightarrow> distinct (BackHandler_addEventListener h hs)"
  by (simp add: BackHandler_addEventListener_def)

lemma set_addEventListener:
  "set (BackHandler_addEventListener h hs) = insert h (set hs)"
  by (auto simp: BackHandler_addEventListener_def)

lemma bridge_inv_mounted:
  "distinct (backHandlers p) \<Longrightarrow> bridge_inv (mounted d p)"
  by (simp add: mounted_def mount_effect_def invariant_def ModalState_init_def
        ModalState_subscribe_def called_def bridge_inv_def)

lemma bridge_inv_apply_op:
  "bridge_inv s \<Longrightarrow> bridge_inv (apply_op op s)"
  by (cases op)
     (auto simp: bridge_inv_def provider_defs store_defs distinct_addEventListener
        set_addEventListener split: option.splits if_splits)

lemma bridge_inv_run:
  "bridge_inv s \<Longrightarrow> bridge_inv (run ops s)"
  unfolding run_def by (induction ops arbitrary: s) (simp_all add: bridge_inv_apply_op)

lemma backHandlers_apply_op:
  "backHandlers (apply_op op s) =
     (if is_OpenModal op \<and> modalState s \<noteq> None \<and> current s = None
      then BackHandler_addEventListener HandleBackPress (backHandlers s)
      else backHandlers s)"
  by (cases op)
     (auto simp: provider_defs store_defs current_def split: option.splits if_splits)

lemma attached_apply_op:
  "HandleBackPress \<in> set (backHandlers s) \<Longrightarrow> HandleBackPress \<in> set (backHandlers (apply_op op s))"
  by (simp add: backHandlers_apply_op set_addEventListener)

lemma attached_run:
  "HandleBackPress \<in> set (backHandlers s) \<Longrightarrow> HandleBackPress \<in> set (backHandlers (run ops s))"
  unfolding run_def by (induction ops arbitrary: s) (simp_all add: attached_apply_op)

lemma run_snoc: "run (ops @ [op]) s = apply_op op (run ops s)"
  by (simp add: run_def)

lemma attached_iff_opened_once:
  assumes "bridge_inv s" and "HandleBackPress \<notin> set (backHandlers s)"
  shows "HandleBackPress \<in> set (backHandlers (run ops s)) \<longleftrightarrow> list_ex is_OpenModal ops"
proof (induction ops rule: rev_induct)
  case Nil
  show ?case using assms(2) by (simp add: run_def)
next
  case (snoc op ops)
  have inv: "bridge_inv (run ops s)"
    using assms(1) by (rule bridge_inv_run)
  show ?case
  proof (cases "list_ex is_OpenModal ops")
    case True
    then show ?thesis
      using snoc by (simp add: run_snoc attached_apply_op)
  next
    case False
    then have "HandleBackPress \<notin> set (backHandlers (run ops s))"
      using snoc by simp
    then have "current (run ops s) = None \<and> modalState (run ops s) \<noteq> None"
      using inv by (auto simp: bridge_inv_def current_def split: option.splits if_splits)
    then show ?thesis
      using False snoc
      by (simp add: run_snoc backHandlers_apply_op set_addEventListener)
  qed
qed

lemma opened_current:
  "bridge_inv s \<Longrightarrow> (current s = None \<longleftrightarrow> opened s = [])"
  by (auto simp: bridge_inv_def current_def opened_def split: option.splits if_splits)

lemma back_press_routed:
  assumes "bridge_inv s" and "opened s \<noteq> []"
  shows "HandleBackPress \<in> set (backHandlers s) \<and>
         hardwareBackPress s = ModalState_handleBackPress s \<and>
         fst (hardwareBackPress s) = Inr True \<and>
         opened (snd (hardwareBackPress s)) = butlast (opened s)"
  using assms
  by (auto simp: bridge_inv_def opened_def hardwareBackPress_def ModalState_handleBackPress_def
        called_def with_opened_def split: option.splits)

lemma count_list_distinct: "distinct xs \<Longrightarrow> count_list xs h \<le> 1"
  by (induction xs) (auto simp: count_list_0_iff)

lemma single_registration:
  "bridge_inv s \<Longrightarrow> count_list (backHandlers s) h \<le> 1"
  by (rule count_list_distinct) (auto simp: bridge_inv_def split: option.splits)

lemma unmount_detaches:
  "HandleBackPress \<notin> set (backHandlers (unmount_cleanup s))"
  by (simp add: unmount_cleanup_def BackHandler_removeEventListener_def
        ModalState_unsubscribe_def called_def Let_def split: option.splits)

text \<open>
  C3. Let \<open>s\<close> be the state after any operations of a mounted provider. An operation
  changes the handlers subscribed at \<^verbatim>\<open>BackHandler\<close> exactly when it is an \<^verbatim>\<open>openModal\<close> and
  \<^verbatim>\<open>currentModal\<close> is none, that is, the stack is empty, and then it attaches the handler
  of the store; no close operation detaches it. While an instance is open the handler
  is attached and a back press is the store's \<^verbatim>\<open>handleBackPress\<close>, which closes the
  topmost instance and reports handled. The handler is subscribed at most once, stays
  attached over every further operation, is attached from the first call of
  \<^verbatim>\<open>openModal\<close> on when it was not attached before the mount, and is detached by the
  cleanup run at unmount.
\<close>

theorem back_handler_lifecycle:
  assumes "distinct (backHandlers p)" and "s = run ops (mounted definition' p)"
  shows "backHandlers (apply_op op s) =
           (if is_OpenModal op \<and> current s = None
            then BackHandler_addEventListener HandleBackPress (backHandlers s)
            else backHandlers s) \<and>
         (current s = None \<longleftrightarrow> opened s = []) \<and>
         (opened s \<noteq> [] \<longrightarrow>
            HandleBackPress \<in> set (backHandlers s) \<and>
            hardwareBackPress s = ModalState_handleBackPress s \<and>
            fst (hardwareBackPress s) = Inr True \<and>
            opened (snd (hardwareBackPress s)) = butlast (opened s)) \<and>
         count_list (backHandlers s) HandleBackPress \<le> 1 \<and>
         (HandleBackPress \<in> set (backHandlers s) \<longrightarrow>
            HandleBackPress \<in> set (backHandlers (run ops' s))) \<and>
         (HandleBackPress \<notin> set (backHandlers p) \<longrightarrow>
            (HandleBackPress \<in> set (backHandlers s) \<longleftrightarrow> list_ex is_OpenModal ops)) \<and>
         HandleBackPress \<notin> set (backHandlers (unmount_cleanup s))"
proof -
  have inv0: "bridge_inv (mounted definition' p)"
    using assms(1) by (rule bridge_inv_mounted)
  then have inv: "bridge_inv s"
    unfolding assms(2) by (rule bridge_inv_run)
  then have init: "modalState s \<noteq> None"
    by (auto simp: bridge_inv_def split: option.splits)
  have bh0: "backHandlers (mounted definition' p) = backHandlers p"
    by (simp add: mounted_def mount_effect_def invariant_def ModalState_init_def
        ModalState_subscribe_def called_def)
  have a: "backHandlers (apply_op op s) =
           (if is_OpenModal op \<and> current s = None
            then BackHandler_addEventListener HandleBackPress (backHandlers s)
            else backHandlers s)"
    using init by (simp add: backHandlers_apply_op)
  have f: "HandleBackPress \<notin> set (backHandlers p) \<longrightarrow>
            (HandleBackPress \<in> set (backHandlers s) \<longleftrightarrow> list_ex is_OpenModal ops)"
    unfolding assms(2) using attached_iff_opened_once [OF inv0, of ops] bh0 by simp
  show ?thesis
    using a opened_current [OF inv] back_press_routed [OF inv] single_registration [OF inv]
      attached_run [of s ops'] f unmount_detaches [of s]
    by blast
qed

theorem back_handler_lifecycle_witness:
  "distinct (backHandlers (fresh_system :: nat system)) \<and>
   backHandlers (mounted [''Alert''] (fresh_system :: nat system)) = [] \<and>
   backHandlers (run [OpenModal ''Alert'' [] ''h1''] (mounted [''Alert''] (fresh_system :: nat system)))
     = [HandleBackPress] \<and>
   opened (run [OpenModal ''Alert'' [] ''h1'', CloseAllModals]
      (mounted [''Alert''] (fresh_system :: nat system))) = [] \<and>
   backHandlers (run [OpenModal ''Alert'' [] ''h1'', CloseAllModals]
      (mounted [''Alert''] (fresh_system :: nat system))) = [HandleBackPress] \<and>
   backHandlers (apply_op (OpenModal ''Alert'' [] ''h2'')
      (run [OpenModal ''Alert'' [] ''h1'', CloseAllModals]
         (mounted [''Alert''] (fresh_system :: nat system)))) = [HandleBackPress] \<and>
   backHandlers (unmount_cleanup
      (run [OpenModal ''Alert'' [] ''h1'', CloseAllModals]
         (mounted [''Alert''] (fresh_system :: nat system)))) = []"
proof -
  have d: "distinct (backHandlers (fresh_system :: nat system))"
    by (simp add: fresh_system_def)
  have m: "mounted [''Alert''] (fresh_system :: nat system) =
      \<lparr>modalState = Some \<lparr>currentModal = None, stack = \<lparr>names = [''Alert''], openedItems = []\<rparr>\<rparr>,
       subscribers = [ProviderListener], backHandlers = [],
       modalStateSubscription = Some ProviderListener,
       storeCalls = [CallInit, CallSubscribe]\<rparr>"
    by (simp add: mounted_def mount_effect_def invariant_def ModalState_init_def
        ModalState_subscribe_def called_def fresh_system_def)
  have r1: "run [OpenModal ''Alert'' [] ''h1''] (mounted [''Alert''] (fresh_system :: nat system)) =
      \<lparr>modalState = Some \<lparr>currentModal = Some \<lparr>hash = ''h1'', name = ''Alert'', params = []\<rparr>,
          stack = \<lparr>names = [''Alert''],
                   openedItems = [\<lparr>hash = ''h1'', name = ''Alert'', params = []\<rparr>]\<rparr>\<rparr>,
       subscribers = [ProviderListener], backHandlers = [HandleBackPress],
       modalStateSubscription = Some ProviderListener,
       storeCalls = [CallInit, CallSubscribe, CallGetState, CallOpenModal]\<rparr>"
    unfolding m
    by (simp add: run_def openModal_def ModalState_getState_def ModalState_openModal_def
        called_def with_opened_def BackHandler_addEventListener_def)
  have r2: "run [OpenModal ''Alert'' [] ''h1'', CloseAllModals]
        (mounted [''Alert''] (fresh_system :: nat system)) =
      \<lparr>modalState = Some \<lparr>currentModal = None, stack = \<lparr>names = [''Alert''], openedItems = []\<rparr>\<rparr>,
       subscribers = [ProviderListener], backHandlers = [HandleBackPress],
       modalStateSubscription = Some ProviderListener,
       storeCalls = [CallInit, CallSubscribe, CallGetState, CallOpenModal, CallCloseAllModals]\<rparr>"
    using r1
    by (simp add: run_def closeAllModals_def ModalState_closeAllModals_def called_def
        with_opened_def)
  have c1: "backHandlers (mounted [''Alert''] (fresh_system :: nat system)) = []"
    unfolding m by simp
  have c2: "backHandlers (run [OpenModal ''Alert'' [] ''h1'']
      (mounted [''Alert''] (fresh_system :: nat system))) = [HandleBackPress]"
    unfolding r1 by simp
  have c4: "backHandlers (run [OpenModal ''Alert'' [] ''h1'', CloseAllModals]
      (mounted [''Alert''] (fresh_system :: nat system))) = [HandleBackPress]"
    unfolding r2 by simp
  have c3: "opened (run [OpenModal ''Alert'' [] ''h1'', CloseAllModals]
      (mounted [''Alert''] (fresh_system :: nat system))) = []"
    unfolding r2 by (simp add: opened_def)
  have c5: "backHandlers (apply_op (OpenModal ''Alert'' [] ''h2'')
      (run [OpenModal ''Alert'' [] ''h1'', CloseAllModals]
         (mounted [''Alert''] (fresh_system :: nat system)))) = [HandleBackPress]"
    unfolding r2
    by (simp add: openModal_def ModalState_getState_def ModalState_openModal_def
        called_def with_opened_def BackHandler_addEventListener_def)
  have c6: "backHandlers (unmount_cleanup
      (run [OpenModal ''Alert'' [] ''h1'', CloseAllModals]
         (mounted [''Alert''] (fresh_system :: nat system)))) = []"
    unfolding r2
    by (simp add: unmount_cleanup_def BackHandler_removeEventListener_def
        ModalState_unsubscribe_def called_def)
  show ?thesis
    using back_handler_lifecycle [OF d refl,
        where ops = "[OpenModal ''Alert'' [] ''h1'', CloseAllModals]"
          and op = "OpenModal ''Alert'' [] ''h2''" and definition' = "[''Alert'']"
          and ops' = "[]"]
      d c1 c2 c3 c4 c5 c6
    by simp
qed

text \<open>
  C8. With the \<^verbatim>\<open>stack\<close> prop absent the effect run at mount fails with the configuration
  error and leaves the shared state as it was: the store is neither initialised nor
  subscribed to, and the trace of the calls to the store has not grown. With the prop
  present the effect calls \<^verbatim>\<open>init\<close> and \<^verbatim>\<open>subscribe\<close>, in this order.
\<close>

theorem mount_without_stack_fails_fast:
  "mount_effect None s =
     (Inl (ConfigurationError ''You need to provide a `stack` prop to <ModalProvider>''), s) \<and>
   storeCalls (snd (mount_effect None s)) = storeCalls s \<and>
   storeCalls (snd (mount_effect (Some stk) s)) = storeCalls s @ [CallInit, CallSubscribe]"
  by (simp add: mount_effect_def invariant_def ModalState_init_def ModalState_subscribe_def
        called_def)

section \<open>Properties of the subscribed listener\<close>

lemma deliver_frame:
  assumes "\<exists>a b. contextValue u = c0\<lparr>currentModal := a, stack := b\<rparr>"
  shows "\<exists>a b. contextValue (deliver c0 ns u) = c0\<lparr>currentModal := a, stack := b\<rparr>"
  using assms unfolding deliver_def
proof (induction ns arbitrary: u)
  case Nil
  then show ?case by simp
next
  case (Cons n ns)
  obtain ms err where n: "n = (ms, err)" by (cases n)
  have "\<exists>a b. contextValue (listener c0 ms err u) = c0\<lparr>currentModal := a, stack := b\<rparr>"
    using Cons.prems by (cases ms) (auto simp: listener_def)
  from Cons.IH [OF this] show ?case by (simp add: n)
qed

lemma first_render_frame:
  "\<exists>a b. contextValue (first_render c0) = c0\<lparr>currentModal := a, stack := b\<rparr>"
proof -
  have "contextValue (first_render c0) = c0\<lparr>currentModal := currentModal c0, stack := stack c0\<rparr>"
    by (simp add: first_render_def)
  then show ?thesis by blast
qed

text \<open>
  C4. After the first render and any notifications, a snapshot delivered to the
  subscribed listener makes the displayed context value the previous one with
  \<^verbatim>\<open>currentModal\<close> and \<^verbatim>\<open>stack\<close> overwritten by those of the snapshot; the five closures
  are those of the previous value.
\<close>

theorem listener_overwrites_currentModal_and_stack_only:
  "(let c0 = initial_context closeAllModals' closeModals' closeModal' openModal' getParam' stack';
        previous = contextValue (deliver c0 notifications (first_render c0));
        new = contextValue (listener c0 (Some snapshot) err
                (deliver c0 notifications (first_render c0)))
    in new = previous\<lparr>currentModal := currentModal snapshot, stack := stack snapshot\<rparr> \<and>
       currentModal new = currentModal snapshot \<and> stack new = stack snapshot \<and>
       ctx_closeAllModals new = ctx_closeAllModals previous \<and>
       ctx_closeModals new = ctx_closeModals previous \<and>
       ctx_closeModal new = ctx_closeModal previous \<and>
       ctx_openModal new = ctx_openModal previous \<and>
       ctx_getParam new = ctx_getParam previous)"
proof -
  define c0 where
    "c0 = initial_context closeAllModals' closeModals' closeModal' openModal' getParam' stack'"
  obtain a b where
    "contextValue (deliver c0 notifications (first_render c0)) = c0\<lparr>currentModal := a, stack := b\<rparr>"
    using deliver_frame [OF first_render_frame] by blast
  then show ?thesis
    unfolding c0_def [symmetric] by (simp add: listener_def Let_def)
qed

text \<open>
  C5. On a notification without a snapshot the listener appends one warning, carrying
  the error, to the console, and changes nothing else: the displayed context value is
  the one before.
\<close>

theorem listener_logs_error_and_keeps_context:
  "listener c0 None err u = u\<lparr>console := console u @ [Warn ''Modalfy'' err]\<rparr> \<and>
   contextValue (listener c0 None err u) = contextValue u"
  by (simp add: listener_def)

end
